theory Spec2Isabelle
  imports Complex_Main
begin

section \<open>Ongaku: the playback session, the visualizer reset and the list viewport\<close>

text \<open>
  A shallow embedding of \<^verbatim>\<open>ongaku.py\<close>: the class \<^verbatim>\<open>MusicPlayer\<close> (playback session,
  volume, playlist continuation), the method \<^verbatim>\<open>AudioVisualizer.update_from_vlc\<close> and the
  navigation part of \<^verbatim>\<open>MusicPlayerUI\<close> (\<^verbatim>\<open>adjust_viewport\<close>, the up and down keys of
  \<^verbatim>\<open>handle_results_input\<close>).

  Objects are records, methods take the record and return the updated one, Python's
  unbounded integers are \<open>int\<close>, and a raised exception is the \<open>Inl\<close> of a sum. What
  the external libraries answer (yt-dlp, VLC) is an argument of the model.
\<close>

subsection \<open>Strings: the video id of a URL\<close>

text \<open>\<^verbatim>\<open>sep in s\<close> for a non-empty \<open>sep\<close>.\<close>

fun contains :: "string \<Rightarrow> string \<Rightarrow> bool" where
  "contains sep [] = (sep = [])"
| "contains sep (c # cs) = (if take (length sep) (c # cs) = sep then True else contains sep cs)"

text \<open>
  \<^verbatim>\<open>s.split(sep)[-1]\<close> for a non-empty \<open>sep\<close>: Python cuts at the occurrences of \<open>sep\<close>
  found from the left, without overlap; \<open>acc\<close> holds the current piece, reversed.
\<close>

function split_last :: "string \<Rightarrow> string \<Rightarrow> string \<Rightarrow> string" where
  "split_last sep acc [] = rev acc"
| "split_last sep acc (c # cs) =
     (if sep = [] then rev acc @ c # cs
      else if take (length sep) (c # cs) = sep
        then split_last sep [] (drop (length sep) (c # cs))
        else split_last sep (c # acc) cs)"
  by pat_completeness auto
termination
  by (relation "measure (\<lambda>(sep, acc, s). length s)") (auto simp: neq_Nil_conv)

text \<open>
  \<^verbatim>\<open>video_id = url.split('watch?v=')[-1] if 'watch?v=' in url else url.split('/')[-1]\<close>
\<close>

definition video_id :: "string \<Rightarrow> string" where
  "video_id url =
     (if contains ''watch?v='' url then split_last ''watch?v='' [] url
      else split_last ''/'' [] url)"

subsection \<open>Data\<close>

text \<open>
  A duration as it reaches the player. The code stores what \<^verbatim>\<open>entry.get('duration', 0)\<close>
  and \<^verbatim>\<open>track.get('duration', 0)\<close> return and checks nothing: yt-dlp and the JSON files
  give \<^verbatim>\<open>None\<close>, an int or a float. A float is held as the real number it denotes; the
  code only compares it (\<^verbatim>\<open>>\<close> and \<^verbatim>\<open>min\<close> compare an int and a float by value) and does
  no arithmetic on it.
\<close>

datatype py_value = PyNone | PyInt int | PyFloat real

text \<open>
  A track is a dictionary; \<^verbatim>\<open>track['url']\<close> and \<^verbatim>\<open>track['title']\<close> raise KeyError on a
  missing key and \<^verbatim>\<open>track.get('duration', 0)\<close> defaults, so each key is optional. A
  \<^verbatim>\<open>'duration'\<close> key that is present holds any of the values above.
\<close>

record track =
  url :: "string option"
  title :: "string option"
  duration :: "py_value option"

text \<open>
  A playlist dictionary; the \<^verbatim>\<open>'tracks'\<close> key may be missing. \<open>tracks\<close> is
  \<^verbatim>\<open>playlist.get('tracks', [])\<close>, which reads a missing key as the empty list, while
  \<^verbatim>\<open>playlist['tracks']\<close> raises KeyError on it.
\<close>

record playlist =
  pl_id :: string
  pl_name :: string
  tracks_key :: "track list option"

definition tracks :: "playlist \<Rightarrow> track list" where
  "tracks pl = (case tracks_key pl of None \<Rightarrow> [] | Some ts \<Rightarrow> ts)"

text \<open>
  The fields of \<^verbatim>\<open>AudioVisualizer\<close>. The bar levels are Python floats; the model holds them
  as reals (the paths below write the constant \<open>0.0\<close> or scale by \<open>0.92\<close>).
\<close>

record visualizer =
  bars :: nat
  frequency_bands :: "real list"
  vis_current_track :: "string option"
  needs_redraw :: bool

text \<open>
  The fields of \<^verbatim>\<open>MusicPlayer\<close> that playback reads or writes. \<open>player\<close> says whether
  \<^verbatim>\<open>self.player\<close> holds a VLC media player (the guards \<^verbatim>\<open>if self.player\<close>); the stream cache
  is a dictionary kept as an association list, newest entry last.
\<close>

record music_player =
  player :: bool
  is_playing :: bool
  current_track :: "string option"
  current_duration :: py_value
  stream_cache :: "(string \<times> string) list"
  volume :: int
  playlists :: "playlist list"
  current_playlist :: "playlist option"
  current_playlist_index :: int
  visualizer :: "visualizer option"

text \<open>
  What the libraries answer. \<open>ydl_url env url\<close> is \<^verbatim>\<open>info.get('url')\<close> of yt-dlp's
  \<^verbatim>\<open>extract_info(url)\<close>, and \<open>None\<close> when the call raises or gives no info;
  \<open>vlc_raises env locator\<close> says whether VLC's \<^verbatim>\<open>media_new\<close> / \<^verbatim>\<open>set_media\<close> / \<^verbatim>\<open>play\<close>
  raise for that locator.
\<close>

record backend =
  ydl_url :: "string \<Rightarrow> string option"
  vlc_raises :: "string \<Rightarrow> bool"

datatype error = KeyError | IndexError | AttributeError | TypeError | BackendError

subsection \<open>MusicPlayer\<close>

text \<open>The constructor's state: nothing loaded, volume 100, no continuation context.\<close>

definition init_player :: "playlist list \<Rightarrow> music_player" where
  "init_player pls =
     \<lparr>player = True, is_playing = False, current_track = None,
      current_duration = PyInt 0, stream_cache = [], volume = 100, playlists = pls, current_playlist = None,
      current_playlist_index = - 1, visualizer = None\<rparr>"

text \<open>Truth value of an \<^verbatim>\<open>Optional[str]\<close>: neither \<open>None\<close> nor the empty string.\<close>

fun truthy :: "string option \<Rightarrow> bool" where
  "truthy None = False"
| "truthy (Some u) = (u \<noteq> [])"

text \<open>
  \<^verbatim>\<open>extract_stream_url\<close>: the cache first, then yt-dlp; a locator is cached only when it
  is truthy. Every exception of the lookup is caught inside and becomes \<open>None\<close>.
\<close>

definition extract_stream_url ::
  "backend \<Rightarrow> string \<Rightarrow> music_player \<Rightarrow> string option \<times> music_player" where
  "extract_stream_url env u s =
     (case map_of (stream_cache s) (video_id u) of
        Some cached \<Rightarrow> (Some cached, s)
      | None \<Rightarrow>
          (case ydl_url env u of
             None \<Rightarrow> (None, s)
           | Some stream_url \<Rightarrow>
               if stream_url = [] then (Some stream_url, s)
               else (Some stream_url,
                     s\<lparr>stream_cache := stream_cache s @ [(video_id u, stream_url)]\<rparr>)))"

text \<open>\<^verbatim>\<open>stop(clear_playlist)\<close>\<close>

definition stop :: "bool \<Rightarrow> music_player \<Rightarrow> music_player" where
  "stop clear_playlist s =
     (if player s then
        (let s1 = s\<lparr>is_playing := False, current_track := None,
                   current_duration := PyInt 0\<rparr> in
         if clear_playlist
         then s1\<lparr>current_playlist := None, current_playlist_index := - 1\<rparr>
         else s1)
      else s)"

text \<open>\<^verbatim>\<open>AudioVisualizer.clear_immediately\<close>\<close>

definition clear_immediately :: "visualizer \<Rightarrow> visualizer" where
  "clear_immediately v =
     v\<lparr>frequency_bands := map (\<lambda>_. 0) (frequency_bands v),
       vis_current_track := None, needs_redraw := True\<rparr>"

text \<open>
  \<^verbatim>\<open>play_track(url, title, duration, from_playlist)\<close>. The result is \<open>Inr\<close> of the returned
  flag, or \<open>Inl\<close> of the exception; the state is the one the call leaves behind either
  way. The VLC calls come after the assignments of track and duration and before
  \<^verbatim>\<open>is_playing = True\<close>; \<^verbatim>\<open>self.player.set_media\<close> on a missing player is an
  AttributeError.
\<close>

definition play_track ::
  "backend \<Rightarrow> string \<Rightarrow> string \<Rightarrow> py_value \<Rightarrow> bool \<Rightarrow> music_player \<Rightarrow>
     (error + bool) \<times> music_player" where
  "play_track env u ttl dur from_playlist s =
     (let s1 = stop (\<not> from_playlist) s;
          s2 = (case visualizer s1 of
                  None \<Rightarrow> s1
                | Some v \<Rightarrow> s1\<lparr>visualizer := Some (clear_immediately v)\<rparr>);
          (stream_url, s3) = extract_stream_url env u s2
      in case stream_url of
           None \<Rightarrow> (Inr False, s3)
         | Some locator \<Rightarrow>
             if locator = [] then (Inr False, s3)
             else
               (let s4 = s3\<lparr>current_track := Some ttl, current_duration := dur\<rparr> in
                if vlc_raises env locator then (Inl BackendError, s4)
                else if player s4 then (Inr True, s4\<lparr>is_playing := True\<rparr>)
                else (Inl AttributeError, s4)))"

text \<open>\<^verbatim>\<open>set_volume\<close>, \<^verbatim>\<open>volume_up\<close>, \<^verbatim>\<open>volume_down\<close>\<close>

definition set_volume :: "int \<Rightarrow> music_player \<Rightarrow> music_player" where
  "set_volume v s = s\<lparr>volume := max 0 (min 100 v)\<rparr>"

definition volume_up :: "music_player \<Rightarrow> music_player" where
  "volume_up s = set_volume (volume s + 5) s"

definition volume_down :: "music_player \<Rightarrow> music_player" where
  "volume_down s = set_volume (volume s - 5) s"

text \<open>A call of one of the three volume methods, and a sequence of such calls.\<close>

datatype volume_call = Set_volume int | Volume_up | Volume_down

fun volume_step :: "volume_call \<Rightarrow> music_player \<Rightarrow> music_player" where
  "volume_step (Set_volume v) s = set_volume v s"
| "volume_step Volume_up s = volume_up s"
| "volume_step Volume_down s = volume_down s"

fun volume_calls :: "volume_call list \<Rightarrow> music_player \<Rightarrow> music_player" where
  "volume_calls [] s = s"
| "volume_calls (c # cs) s = volume_calls cs (volume_step c s)"

text \<open>\<^verbatim>\<open>v > 0\<close>: a TypeError on \<^verbatim>\<open>None\<close>, the comparison by value on a number.\<close>

definition py_positive :: "py_value \<Rightarrow> error + bool" where
  "py_positive v =
     (case v of
        PyNone \<Rightarrow> Inl TypeError
      | PyInt d \<Rightarrow> Inr (0 < d)
      | PyFloat x \<Rightarrow> Inr (0 < x))"

text \<open>
  \<^verbatim>\<open>min(e, v)\<close> for an int \<open>e\<close>: Python keeps the first argument and takes the second
  only when it is smaller, so the result is the int, or the value \<open>v\<close> as it is stored.
\<close>

definition py_min :: "int \<Rightarrow> py_value \<Rightarrow> error + py_value" where
  "py_min e v =
     (case v of
        PyNone \<Rightarrow> Inl TypeError
      | PyInt d \<Rightarrow> Inr (if d < e then PyInt d else PyInt e)
      | PyFloat x \<Rightarrow> Inr (if x < of_int e then PyFloat x else PyInt e))"

text \<open>
  \<^verbatim>\<open>get_current_time\<close>; \<open>time_ms\<close> is what \<^verbatim>\<open>self.player.get_time()\<close> answers
  (\<open>-1\<close> when VLC does not know). \<^verbatim>\<open>//\<close> rounds down, as \<open>div\<close> does. The result is the
  returned value, or the exception of the comparison with the stored duration.
\<close>

definition get_current_time :: "music_player \<Rightarrow> int \<Rightarrow> error + py_value" where
  "get_current_time s time_ms =
     (if player s \<and> is_playing s then
        (if time_ms \<noteq> - 1 then
           (let current_seconds = time_ms div 1000 in
            case py_positive (current_duration s) of
              Inl e \<Rightarrow> Inl e
            | Inr positive \<Rightarrow>
                if positive then py_min current_seconds (current_duration s)
                else Inr (PyInt current_seconds))
         else Inr (PyInt 0))
      else Inr (PyInt 0))"

text \<open>
  The call \<^verbatim>\<open>self.play_track(track['url'], track['title'], track.get('duration', 0),
  from_playlist=True)\<close> of both playlist methods: the arguments are evaluated first, from
  the left, and a missing key raises before \<^verbatim>\<open>play_track\<close> runs.
\<close>

definition play_track_of ::
  "backend \<Rightarrow> track \<Rightarrow> music_player \<Rightarrow> (error + bool) \<times> music_player" where
  "play_track_of env t s =
     (case url t of
        None \<Rightarrow> (Inl KeyError, s)
      | Some u \<Rightarrow>
          (case title t of
             None \<Rightarrow> (Inl KeyError, s)
           | Some ttl \<Rightarrow>
               play_track env u ttl (case duration t of None \<Rightarrow> PyInt 0 | Some d \<Rightarrow> d) True s))"

text \<open>
  \<^verbatim>\<open>xs[i]\<close>: an index from \<open>0\<close> up counts from the front, one from \<open>-1\<close> down to
  \<open>-len(xs)\<close> counts from the back, anything else is an IndexError.
\<close>

definition py_index :: "'a list \<Rightarrow> int \<Rightarrow> error + 'a" where
  "py_index xs i =
     (if 0 \<le> i then
        (if i < int (length xs) then Inr (xs ! nat i) else Inl IndexError)
      else if - int (length xs) \<le> i then Inr (xs ! nat (int (length xs) + i))
      else Inl IndexError)"

text \<open>
  \<^verbatim>\<open>next((p for p in self.playlists if p.get('id') == playlist_id), None)\<close>
\<close>

fun find_playlist :: "playlist list \<Rightarrow> string \<Rightarrow> playlist option" where
  "find_playlist [] i = None"
| "find_playlist (p # ps) i = (if pl_id p = i then Some p else find_playlist ps i)"

text \<open>
  \<^verbatim>\<open>play_playlist_track(playlist_id, track_index)\<close>: the guard reads the tracks with
  \<^verbatim>\<open>.get('tracks', [])\<close>, the track is read with \<^verbatim>\<open>playlist['tracks'][track_index]\<close>. The
  context is bound before the track is read, so it stays bound when the read raises.
\<close>

definition play_playlist_track ::
  "backend \<Rightarrow> string \<Rightarrow> int \<Rightarrow> music_player \<Rightarrow> (error + bool) \<times> music_player" where
  "play_playlist_track env playlist_id track_index s =
     (case find_playlist (playlists s) playlist_id of
        None \<Rightarrow> (Inr False, s)
      | Some pl \<Rightarrow>
          if track_index \<ge> int (length (tracks pl)) then (Inr False, s)
          else
            (let s1 = s\<lparr>current_playlist := Some pl, current_playlist_index := track_index\<rparr> in
             case tracks_key pl of
               None \<Rightarrow> (Inl KeyError, s1)
             | Some ts \<Rightarrow>
                 (case py_index ts track_index of
                    Inl e \<Rightarrow> (Inl e, s1)
                  | Inr t \<Rightarrow> play_track_of env t s1)))"

text \<open>
  \<^verbatim>\<open>play_next_in_playlist\<close>. The method calls itself from its \<^verbatim>\<open>except\<close> branch with
  nothing that counts the attempts, so the model is a partial function: \<open>None\<close> is a call
  that never returns. \<^verbatim>\<open>%\<close> with a positive divisor is \<open>mod\<close>.
\<close>

partial_function (option) play_next_in_playlist ::
  "backend \<Rightarrow> music_player \<Rightarrow> (bool \<times> music_player) option" where
  "play_next_in_playlist env s =
     (case current_playlist s of
        None \<Rightarrow> Some (False, s)
      | Some pl \<Rightarrow>
          if tracks pl = [] then Some (False, s)
          else
            (let s1 = s\<lparr>current_playlist_index :=
                         (current_playlist_index s + 1) mod int (length (tracks pl))\<rparr>;
                 t = tracks pl ! nat (current_playlist_index s1)
             in case play_track_of env t s1 of
                  (Inr success, s2) \<Rightarrow> Some (success, s2)
                | (Inl e, s2) \<Rightarrow>
                    if length (tracks pl) > 1 then play_next_in_playlist env s2
                    else Some (False, s2)))"

text \<open>
  \<open>k\<close> calls of \<^verbatim>\<open>play_next_in_playlist\<close> in a row: the cursor after each call, and the
  final state; \<open>None\<close> when one of the calls never returns.
\<close>

fun play_next_times ::
  "backend \<Rightarrow> nat \<Rightarrow> music_player \<Rightarrow> (int list \<times> music_player) option" where
  "play_next_times env 0 s = Some ([], s)"
| "play_next_times env (Suc k) s =
     (case play_next_in_playlist env s of
        None \<Rightarrow> None
      | Some (r, s1) \<Rightarrow>
          (case play_next_times env k s1 of
             None \<Rightarrow> None
           | Some (cs, s2) \<Rightarrow> Some (current_playlist_index s1 # cs, s2)))"

subsection \<open>AudioVisualizer\<close>

text \<open>The members of \<^verbatim>\<open>vlc.State\<close>.\<close>

datatype vlc_state =
  NothingSpecial | Opening | Buffering | Playing | Paused | Stopped | Ended | Error

text \<open>
  What the VLC player answers during one update: \<^verbatim>\<open>get_state()\<close> (\<open>None\<close> when the call
  raises), \<^verbatim>\<open>audio_get_volume()\<close>, \<^verbatim>\<open>get_time()\<close> and \<^verbatim>\<open>get_media()\<close>; the media is read as
  \<^verbatim>\<open>str(current_media) if current_media else None\<close>, or the call raises.
\<close>

datatype media_answer = Media_raises | Media "string option"

record vlc_answers =
  get_state :: "vlc_state option"
  audio_get_volume :: int
  get_time :: int
  get_media :: media_answer

text \<open>
  \<^verbatim>\<open>update_from_vlc(player)\<close>. The argument is \<open>None\<close> when the caller passes \<^verbatim>\<open>None\<close>; for a
  player object the test \<^verbatim>\<open>not player.is_playing\<close> reads a bound method, which is always
  true as a condition, so only \<^verbatim>\<open>not player\<close> decides the first branch. The last part of
  the method (targets from \<^verbatim>\<open>math.sin\<close> and \<^verbatim>\<open>math.cos\<close>, then smoothing, in floating
  point) is the argument \<open>analysis\<close>: from volume, time and the visualizer to the new
  levels.
\<close>

definition update_from_vlc ::
  "(int \<Rightarrow> int \<Rightarrow> visualizer \<Rightarrow> real list) \<Rightarrow> vlc_answers option \<Rightarrow> visualizer \<Rightarrow> visualizer" where
  "update_from_vlc analysis p v =
     (case p of
        None \<Rightarrow> v\<lparr>frequency_bands := map (\<lambda>_. 0) (frequency_bands v), vis_current_track := None\<rparr>
      | Some a \<Rightarrow>
          (case get_state a of
             None \<Rightarrow> v\<lparr>frequency_bands := map (\<lambda>_. 0) (frequency_bands v)\<rparr>
           | Some Paused \<Rightarrow> v\<lparr>frequency_bands := map (\<lambda>x. x * 0.92) (frequency_bands v)\<rparr>
           | Some Playing \<Rightarrow>
               if audio_get_volume a < 0 \<or> get_time a \<le> 0 then v
               else
                 (case get_media a of
                    Media_raises \<Rightarrow>
                      v\<lparr>frequency_bands := analysis (audio_get_volume a) (get_time a) v\<rparr>
                  | Media media_id \<Rightarrow>
                      if vis_current_track v \<noteq> media_id
                      then v\<lparr>frequency_bands := map (\<lambda>_. 0) (frequency_bands v),
                             vis_current_track := media_id\<rparr>
                      else v\<lparr>frequency_bands := analysis (audio_get_volume a) (get_time a) v\<rparr>)
           | Some _ \<Rightarrow> v\<lparr>frequency_bands := map (\<lambda>_. 0) (frequency_bands v)\<rparr>))"

subsection \<open>MusicPlayerUI: selection and viewport\<close>

record music_player_ui =
  selected_index :: int
  prev_selected_index :: int
  scroll_offset :: int
  visible_lines :: int
  is_loading_more :: bool
  status_message :: string

text \<open>\<^verbatim>\<open>adjust_viewport\<close>: the flag says that a full redraw is needed.\<close>

definition adjust_viewport :: "music_player_ui \<Rightarrow> bool \<times> music_player_ui" where
  "adjust_viewport u =
     (if selected_index u < scroll_offset u
      then (True, u\<lparr>scroll_offset := selected_index u\<rparr>)
      else if selected_index u \<ge> scroll_offset u + visible_lines u
      then (True, u\<lparr>scroll_offset := selected_index u - visible_lines u + 1\<rparr>)
      else (False, u))"

datatype key = KEY_UP | KEY_DOWN

text \<open>
  The two navigation branches of \<^verbatim>\<open>handle_results_input\<close>; \<open>results\<close> is
  \<^verbatim>\<open>self.player.search_results\<close>. The down key on the last result starts the background
  fetch (not modelled: it runs in another thread) and does not move the selection.
\<close>

definition handle_results_input ::
  "'a list \<Rightarrow> key \<Rightarrow> music_player_ui \<Rightarrow> bool \<times> music_player_ui" where
  "handle_results_input results k u =
     (case k of
        KEY_UP \<Rightarrow>
          (let new_index = max 0 (selected_index u - 1) in
           if new_index \<noteq> selected_index u
           then adjust_viewport
                  (u\<lparr>prev_selected_index := selected_index u, selected_index := new_index\<rparr>)
           else (False, u))
      | KEY_DOWN \<Rightarrow>
          if selected_index u = int (length results) - 1 \<and> \<not> is_loading_more u
          then (False, u\<lparr>is_loading_more := True, status_message := ''Loading more results...''\<rparr>)
          else
            (let new_index = min (int (length results) - 1) (selected_index u + 1) in
             if new_index \<noteq> selected_index u
             then adjust_viewport
                    (u\<lparr>prev_selected_index := selected_index u, selected_index := new_index\<rparr>)
             else (False, u)))"

text \<open>The states after each key of a sequence of navigation keys.\<close>

fun navigate :: "'a list \<Rightarrow> key list \<Rightarrow> music_player_ui \<Rightarrow> music_player_ui list" where
  "navigate results [] u = []"
| "navigate results (k # ks) u =
     (let u1 = snd (handle_results_input results k u) in u1 # navigate results ks u1)"

subsection \<open>Auxiliary notions\<close>

text \<open>
  The session after the first two statements of \<^verbatim>\<open>play_track\<close>: the internal
  \<^verbatim>\<open>stop\<close>, then the clearing of the visualizer.
\<close>

definition stopped_cleared :: "bool \<Rightarrow> music_player \<Rightarrow> music_player" where
  "stopped_cleared clear_playlist s =
     (case visualizer (stop clear_playlist s) of
        None \<Rightarrow> stop clear_playlist s
      | Some v \<Rightarrow> (stop clear_playlist s)\<lparr>visualizer := Some (clear_immediately v)\<rparr>)"

text \<open>
  The viewport invariant over a list of \<open>m\<close> items: the selection is inside the window
  of \<open>visible_lines\<close> rows that starts at \<open>scroll_offset\<close>, and the offset is between
  \<open>0\<close> and \<open>max 0 (m - visible_lines)\<close>.
\<close>

definition viewport_ok :: "nat \<Rightarrow> music_player_ui \<Rightarrow> bool" where
  "viewport_ok m u \<longleftrightarrow>
     scroll_offset u \<le> selected_index u \<and>
     selected_index u < scroll_offset u + visible_lines u \<and>
     0 \<le> scroll_offset u \<and>
     scroll_offset u \<le> max 0 (int m - visible_lines u)"

text \<open>
  The invariant of the continuation context: when a playlist is bound, the cursor is an
  index of its track list, and a loaded track is the one at the cursor.
\<close>

definition context_ok :: "music_player \<Rightarrow> bool" where
  "context_ok s =
     (case current_playlist s of
        None \<Rightarrow> True
      | Some pl \<Rightarrow>
          0 \<le> current_playlist_index s \<and>
          current_playlist_index s < int (length (tracks pl)) \<and>
          (case current_track s of
             None \<Rightarrow> True
           | Some ttl \<Rightarrow> title (tracks pl ! nat (current_playlist_index s)) = Some ttl))"

text \<open>Every track of the playlist has the keys \<^verbatim>\<open>'url'\<close> and \<^verbatim>\<open>'title'\<close>.\<close>

definition well_formed :: "playlist \<Rightarrow> bool" where
  "well_formed pl = list_all (\<lambda>t. url t \<noteq> None \<and> title t \<noteq> None) (tracks pl)"

subsection \<open>Example sessions\<close>

text \<open>
  Two tracks as the search returns them, two playlists made of them, and a backend in
  which yt-dlp finds a stream for the first track only and VLC never raises.
\<close>

definition track_a :: track where
  "track_a = \<lparr>url = Some ''https://youtube.com/watch?v=a'', title = Some ''A'',
      duration = Some (PyInt 125)\<rparr>"

definition track_b :: track where
  "track_b = \<lparr>url = Some ''https://youtube.com/watch?v=b'', title = Some ''B'', duration = None\<rparr>"

definition mix :: playlist where
  "mix = \<lparr>pl_id = ''p'', pl_name = ''Mix'', tracks_key = Some [track_a, track_b]\<rparr>"

definition solo :: playlist where
  "solo = \<lparr>pl_id = ''s'', pl_name = ''Solo'', tracks_key = Some [track_a]\<rparr>"

definition only_a_resolves :: backend where
  "only_a_resolves =
     \<lparr>ydl_url = (\<lambda>u. if u = ''https://youtube.com/watch?v=a'' then Some ''stream-a'' else None),
      vlc_raises = (\<lambda>l. False)\<rparr>"

text \<open>The session while track A of the playlist \<open>mix\<close> plays, cursor 0.\<close>

definition playing_a :: music_player where
  "playing_a =
     \<lparr>player = True, is_playing = True, current_track = Some ''A'',
      current_duration = PyInt 125,
      stream_cache = [(''a'', ''stream-a'')], volume = 100, playlists = [mix, solo],
      current_playlist = Some mix, current_playlist_index = 0, visualizer = None\<rparr>"

text \<open>
  A playlist as a hand-edited \<^verbatim>\<open>playlists.json\<close> can hold it: both tracks lack the
  \<^verbatim>\<open>'url'\<close> key.
\<close>

definition no_url_1 :: track where
  "no_url_1 = \<lparr>url = None, title = Some ''X'', duration = None\<rparr>"

definition no_url_2 :: track where
  "no_url_2 = \<lparr>url = None, title = Some ''Y'', duration = None\<rparr>"

definition broken :: playlist where
  "broken = \<lparr>pl_id = ''q'', pl_name = ''Broken'', tracks_key = Some [no_url_1, no_url_2]\<rparr>"

text \<open>A visualizer with three raised bars that last saw the media \<open>m1\<close>, and VLC's
  answers one second into the media \<open>m2\<close>.\<close>

definition raised_bars :: visualizer where
  "raised_bars =
     \<lparr>bars = 3, frequency_bands = [0.5, 0.9, 0.25], vis_current_track = Some ''m1'',
      needs_redraw = False\<rparr>"

definition answers_m2 :: vlc_answers where
  "answers_m2 =
     \<lparr>get_state = Some Playing, audio_get_volume = 80, get_time = 1000,
      get_media = Media (Some ''m2'')\<rparr>"

text \<open>The results view on entry (selection and offset 0), with two visible rows, and a
  view whose selection has left a window of two rows.\<close>

definition results_entry :: music_player_ui where
  "results_entry =
     \<lparr>selected_index = 0, prev_selected_index = - 1, scroll_offset = 0, visible_lines = 2,
      is_loading_more = False, status_message = []\<rparr>"

definition selection_below :: music_player_ui where
  "selection_below =
     \<lparr>selected_index = 5, prev_selected_index = 4, scroll_offset = 0, visible_lines = 2,
      is_loading_more = False, status_message = []\<rparr>"

section \<open>Properties\<close>

subsection \<open>The example tracks\<close>

lemma video_id_a: "video_id ''https://youtube.com/watch?v=a'' = ''a''"
  by (simp add: video_id_def)

lemma video_id_b: "video_id ''https://youtube.com/watch?v=b'' = ''b''"
  by (simp add: video_id_def)

subsection \<open>Elapsed time\<close>

text \<open>
  C6. In a playing session whose duration \<open>d\<close> is known (\<open>d > 0\<close>), when VLC reports a
  known time (anything but \<open>-1\<close>) of \<open>e\<close> whole seconds, \<^verbatim>\<open>get_current_time\<close> returns
  \<open>min e d\<close>: for an int duration the int \<open>min e d\<close>, and for a float duration the
  duration itself when it is below \<open>e\<close> and the int \<open>e\<close> otherwise.
\<close>

theorem get_current_time_clamped:
  assumes "player s" and "is_playing s" and "time_ms \<noteq> - 1"
  shows "(current_duration s = PyInt d \<and> 0 < d \<longrightarrow>
            get_current_time s time_ms = Inr (PyInt (min (time_ms div 1000) d))) \<and>
         (current_duration s = PyFloat x \<and> 0 < x \<longrightarrow>
            get_current_time s time_ms =
              Inr (if x < of_int (time_ms div 1000) then PyFloat x
                   else PyInt (time_ms div 1000)))"
  using assms by (auto simp: get_current_time_def py_positive_def py_min_def Let_def)

theorem get_current_time_clamped_witness:
  "player playing_a \<and> is_playing playing_a \<and> current_duration playing_a = PyInt 125 \<and>
   get_current_time playing_a 130500 = Inr (PyInt 125)"
proof -
  have h: "player playing_a" "is_playing playing_a" "(130500::int) \<noteq> - 1"
    by (simp_all add: playing_a_def)
  have d: "current_duration playing_a = PyInt 125"
    by (simp add: playing_a_def)
  from get_current_time_clamped [OF h, of 125] d h show ?thesis
    by simp
qed

text \<open>
  C10, as the code has it. When the session is not playing, or VLC reports the time as
  unknown (\<open>-1\<close>), \<^verbatim>\<open>get_current_time\<close> returns 0, whatever is stored as the duration.
  For every answer VLC can give (a time, or \<open>-1\<close>) and a stored duration that is a
  number, the reported elapsed time is a number that is not negative: an int when the
  duration is an int; with a float duration it is an int, or the positive float duration
  itself.
\<close>

theorem get_current_time_zero_or_nonneg:
  "(\<not> is_playing s \<or> time_ms = - 1 \<longrightarrow> get_current_time s time_ms = Inr (PyInt 0)) \<and>
   (- 1 \<le> time_ms \<and> current_duration s = PyInt d \<longrightarrow>
      (\<exists>n. get_current_time s time_ms = Inr (PyInt n) \<and> 0 \<le> n)) \<and>
   (- 1 \<le> time_ms \<and> current_duration s = PyFloat x \<longrightarrow>
      (\<exists>n. get_current_time s time_ms = Inr (PyInt n) \<and> 0 \<le> n) \<or>
      (get_current_time s time_ms = Inr (PyFloat x) \<and> 0 < x))"
  by (auto simp: get_current_time_def py_positive_def py_min_def Let_def)

theorem get_current_time_zero_or_nonneg_witness:
  "get_current_time playing_a (- 1) = Inr (PyInt 0) \<and>
   current_duration playing_a = PyInt 125 \<and>
   get_current_time playing_a 999 = Inr (PyInt 0)"
  using get_current_time_zero_or_nonneg [of playing_a "- 1" 125]
    get_current_time_zero_or_nonneg [of playing_a 999 125]
  by (simp add: playing_a_def get_current_time_def py_positive_def py_min_def)

text \<open>
  C10 as stated fails, since the session stores the duration it is given. After
  \<^verbatim>\<open>play_track(url, 'A', 125.5)\<close> in a fresh session, at 130.5 seconds the method
  returns the float 125.5, which is no integer. And after \<^verbatim>\<open>play_track(url, 'A', None)\<close>
  (\<^verbatim>\<open>entry.get('duration', 0)\<close> is \<^verbatim>\<open>None\<close> when yt-dlp reports the key without a value)
  it returns nothing: \<^verbatim>\<open>self.current_duration > 0\<close> raises TypeError.
\<close>

theorem get_current_time_float_or_error:
  "fst (play_track only_a_resolves ''https://youtube.com/watch?v=a'' ''A'' (PyFloat 125.5) False
          (init_player [])) = Inr True \<and>
   get_current_time
     (snd (play_track only_a_resolves ''https://youtube.com/watch?v=a'' ''A'' (PyFloat 125.5) False
             (init_player []))) 130500 = Inr (PyFloat 125.5) \<and>
   fst (play_track only_a_resolves ''https://youtube.com/watch?v=a'' ''A'' PyNone False
          (init_player [])) = Inr True \<and>
   get_current_time
     (snd (play_track only_a_resolves ''https://youtube.com/watch?v=a'' ''A'' PyNone False
             (init_player []))) 5000 = Inl TypeError"
  by (simp add: play_track_def stop_def extract_stream_url_def video_id_a only_a_resolves_def
      init_player_def get_current_time_def py_positive_def py_min_def Let_def)

subsection \<open>Volume\<close>

lemma set_volume_range: "0 \<le> volume (set_volume v s) \<and> volume (set_volume v s) \<le> 100"
  by (simp add: set_volume_def)

lemma volume_step_range: "0 \<le> volume (volume_step c s) \<and> volume (volume_step c s) \<le> 100"
  by (cases c) (simp_all add: volume_up_def volume_down_def set_volume_range)

lemma volume_calls_range:
  "0 \<le> volume s \<and> volume s \<le> 100 \<Longrightarrow>
   0 \<le> volume (volume_calls cs s) \<and> volume (volume_calls cs s) \<le> 100"
  by (induction cs arbitrary: s) (simp_all add: volume_step_range)

text \<open>
  C7. From a volume in [0, 100], after every call of a sequence of \<^verbatim>\<open>set_volume\<close>,
  \<^verbatim>\<open>volume_up\<close> and \<^verbatim>\<open>volume_down\<close> calls (every prefix of the sequence) the volume is
  in [0, 100]; and where the step up does not clamp (\<open>volume + 5 \<le> 100\<close>),
  \<^verbatim>\<open>volume_up\<close> then \<^verbatim>\<open>volume_down\<close> gives the volume back.
\<close>

theorem volume_in_range:
  assumes "0 \<le> volume s" and "volume s \<le> 100"
  shows "(\<forall>k \<le> length cs.
            0 \<le> volume (volume_calls (take k cs) s) \<and>
            volume (volume_calls (take k cs) s) \<le> 100) \<and>
         (volume s + 5 \<le> 100 \<longrightarrow> volume (volume_down (volume_up s)) = volume s)"
  using assms volume_calls_range [of s]
  by (auto simp: volume_up_def volume_down_def set_volume_def)

theorem volume_in_range_witness:
  "volume (volume_calls [Volume_up, Set_volume 250, Volume_down, Set_volume (- 7)] playing_a) = 0 \<and>
   volume (volume_down (volume_up (set_volume 40 playing_a))) = 40"
proof -
  let ?s = "set_volume 40 playing_a"
  have h: "0 \<le> volume ?s" "volume ?s \<le> 100"
    by (simp_all add: set_volume_def)
  from volume_in_range [OF h, of "[]"] have "volume (volume_down (volume_up ?s)) = volume ?s"
    by (simp add: set_volume_def)
  moreover have g: "0 \<le> volume playing_a" "volume playing_a \<le> 100"
    by (simp_all add: playing_a_def)
  from volume_in_range [OF g, of "[Volume_up, Set_volume 250, Volume_down, Set_volume (- 7)]"]
  have "0 \<le> volume (volume_calls [Volume_up, Set_volume 250, Volume_down, Set_volume (- 7)] playing_a)"
    by auto
  ultimately show ?thesis
    by (simp add: volume_up_def volume_down_def set_volume_def)
qed

subsection \<open>Visualizer reset\<close>

text \<open>
  C9. In an update while VLC plays (state Playing, volume not negative, time above 0, so
  that the method reaches the media check), if the media identity differs from the one
  the visualizer saw last, the update sets every bar to 0 and records the new identity,
  and nothing else: the result does not depend on \<open>analysis\<close>, the target generation and
  smoothing, which is skipped.
\<close>

theorem update_from_vlc_track_change:
  assumes "get_state a = Some Playing" and "0 \<le> audio_get_volume a" and "0 < get_time a"
    and "get_media a = Media media_id" and "vis_current_track v \<noteq> media_id"
  shows "update_from_vlc analysis (Some a) v =
           v\<lparr>frequency_bands := replicate (length (frequency_bands v)) 0,
             vis_current_track := media_id\<rparr>"
  using assms by (simp add: update_from_vlc_def map_replicate_const)

theorem update_from_vlc_track_change_witness:
  "update_from_vlc (\<lambda>vol t v. map ((+) 1) (frequency_bands v)) (Some answers_m2) raised_bars =
     \<lparr>bars = 3, frequency_bands = [0, 0, 0], vis_current_track = Some ''m2'',
      needs_redraw = False\<rparr>"
proof -
  have h: "get_state answers_m2 = Some Playing" "0 \<le> audio_get_volume answers_m2"
    "0 < get_time answers_m2" "get_media answers_m2 = Media (Some ''m2'')"
    "vis_current_track raised_bars \<noteq> Some ''m2''"
    by (simp_all add: answers_m2_def raised_bars_def)
  show ?thesis
    unfolding update_from_vlc_track_change [OF h]
    by (simp add: raised_bars_def numeral_3_eq_3)
qed

subsection \<open>Viewport\<close>

lemma handle_results_input_keeps:
  assumes "viewport_ok m u" and "selected_index u < int m" and "1 \<le> visible_lines u"
    and "m = length results"
  shows "viewport_ok m (snd (handle_results_input results k u)) \<and>
         selected_index (snd (handle_results_input results k u)) < int m \<and>
         visible_lines (snd (handle_results_input results k u)) = visible_lines u"
  using assms
  by (cases k)
     (auto simp: handle_results_input_def adjust_viewport_def viewport_ok_def Let_def)

lemma navigate_keeps:
  assumes "viewport_ok (length results) u" and "selected_index u < int (length results)"
    and "1 \<le> visible_lines u"
  shows "\<forall>u' \<in> set (navigate results ks u).
           viewport_ok (length results) u' \<and> visible_lines u' = visible_lines u"
  using assms
proof (induction ks arbitrary: u)
  case Nil
  then show ?case by simp
next
  case (Cons k ks)
  let ?u1 = "snd (handle_results_input results k u)"
  from handle_results_input_keeps [OF Cons.prems(1,2,3) refl, of k]
  have 1: "viewport_ok (length results) ?u1" "selected_index ?u1 < int (length results)"
    "visible_lines ?u1 = visible_lines u"
    by simp_all
  with Cons.prems have "1 \<le> visible_lines ?u1" by simp
  from Cons.IH [OF 1(1,2) this] 1 show ?case by (simp add: Let_def)
qed

lemma adjust_viewport_minimal:
  assumes "1 \<le> visible_lines w"
  shows "scroll_offset (snd (adjust_viewport w)) \<le> selected_index w \<and>
         selected_index w < scroll_offset (snd (adjust_viewport w)) + visible_lines w \<and>
         (\<forall>t. t \<le> selected_index w \<and> selected_index w < t + visible_lines w \<longrightarrow>
              \<bar>scroll_offset (snd (adjust_viewport w)) - scroll_offset w\<bar> \<le> \<bar>t - scroll_offset w\<bar>) \<and>
         (scroll_offset (snd (adjust_viewport w)) < scroll_offset w \<longrightarrow>
            scroll_offset (snd (adjust_viewport w)) = selected_index w) \<and>
         (scroll_offset w < scroll_offset (snd (adjust_viewport w)) \<longrightarrow>
            scroll_offset (snd (adjust_viewport w)) + visible_lines w - 1 = selected_index w)"
  using assms by (auto simp: adjust_viewport_def)

text \<open>
  C8. Over a list of \<open>m\<close> results (\<open>m \<ge> 1\<close>, as the results view always has) and a
  viewport of \<open>h \<ge> 1\<close> rows, starting from a view that satisfies the invariant with its
  selection inside the list (on entry: selection and offset 0), after each key of any
  sequence of up and down keys \<open>scroll_offset \<le> selected_index < scroll_offset + h\<close> and
  \<open>0 \<le> scroll_offset \<le> max 0 (m - h)\<close>. And \<^verbatim>\<open>adjust_viewport\<close>, on any view, puts the
  selection inside the window by the least possible change of the offset: after a move
  up the selection is the first row, after a move down it is the last row, never a row
  in between.
\<close>

theorem viewport_invariant:
  assumes "results \<noteq> []" and "1 \<le> visible_lines u"
    and "viewport_ok (length results) u" and "selected_index u < int (length results)"
    and "1 \<le> visible_lines w"
  shows "(\<forall>u' \<in> set (navigate results ks u).
            visible_lines u' = visible_lines u \<and>
            scroll_offset u' \<le> selected_index u' \<and>
            selected_index u' < scroll_offset u' + visible_lines u \<and>
            0 \<le> scroll_offset u' \<and>
            scroll_offset u' \<le> max 0 (int (length results) - visible_lines u)) \<and>
         (scroll_offset (snd (adjust_viewport w)) \<le> selected_index w \<and>
          selected_index w < scroll_offset (snd (adjust_viewport w)) + visible_lines w \<and>
          (\<forall>t. t \<le> selected_index w \<and> selected_index w < t + visible_lines w \<longrightarrow>
               \<bar>scroll_offset (snd (adjust_viewport w)) - scroll_offset w\<bar> \<le> \<bar>t - scroll_offset w\<bar>) \<and>
          (scroll_offset (snd (adjust_viewport w)) < scroll_offset w \<longrightarrow>
             scroll_offset (snd (adjust_viewport w)) = selected_index w) \<and>
          (scroll_offset w < scroll_offset (snd (adjust_viewport w)) \<longrightarrow>
             scroll_offset (snd (adjust_viewport w)) + visible_lines w - 1 = selected_index w))"
proof
  from navigate_keeps [OF assms(3,4,2), of ks]
  show "\<forall>u' \<in> set (navigate results ks u).
            visible_lines u' = visible_lines u \<and>
            scroll_offset u' \<le> selected_index u' \<and>
            selected_index u' < scroll_offset u' + visible_lines u \<and>
            0 \<le> scroll_offset u' \<and>
            scroll_offset u' \<le> max 0 (int (length results) - visible_lines u)"
    by (auto simp: viewport_ok_def)
next
  from adjust_viewport_minimal [OF assms(5)]
  show "scroll_offset (snd (adjust_viewport w)) \<le> selected_index w \<and>
          selected_index w < scroll_offset (snd (adjust_viewport w)) + visible_lines w \<and>
          (\<forall>t. t \<le> selected_index w \<and> selected_index w < t + visible_lines w \<longrightarrow>
               \<bar>scroll_offset (snd (adjust_viewport w)) - scroll_offset w\<bar> \<le> \<bar>t - scroll_offset w\<bar>) \<and>
          (scroll_offset (snd (adjust_viewport w)) < scroll_offset w \<longrightarrow>
             scroll_offset (snd (adjust_viewport w)) = selected_index w) \<and>
          (scroll_offset w < scroll_offset (snd (adjust_viewport w)) \<longrightarrow>
             scroll_offset (snd (adjust_viewport w)) + visible_lines w - 1 = selected_index w)" .
qed

theorem viewport_invariant_witness:
  "list_all (viewport_ok 3)
     (navigate [track_a, track_b, track_a] [KEY_DOWN, KEY_DOWN, KEY_UP, KEY_UP, KEY_UP] results_entry) \<and>
   scroll_offset (snd (adjust_viewport selection_below)) = 4"
proof -
  let ?rs = "[track_a, track_b, track_a]"
  let ?ks = "[KEY_DOWN, KEY_DOWN, KEY_UP, KEY_UP, KEY_UP]"
  have h: "?rs \<noteq> []" "1 \<le> visible_lines results_entry"
    "viewport_ok (length ?rs) results_entry" "selected_index results_entry < int (length ?rs)"
    "1 \<le> visible_lines selection_below"
    by (simp_all add: results_entry_def selection_below_def viewport_ok_def)
  have v: "visible_lines results_entry = 2" "visible_lines selection_below = 2"
    "selected_index selection_below = 5" "scroll_offset selection_below = 0"
    by (simp_all add: results_entry_def selection_below_def)
  from viewport_invariant [OF h, of ?ks]
  have a: "\<forall>u' \<in> set (navigate ?rs ?ks results_entry). viewport_ok 3 u'"
    and b: "scroll_offset selection_below < scroll_offset (snd (adjust_viewport selection_below)) \<longrightarrow>
            scroll_offset (snd (adjust_viewport selection_below)) + visible_lines selection_below - 1 =
            selected_index selection_below"
    and c: "selected_index selection_below <
            scroll_offset (snd (adjust_viewport selection_below)) + visible_lines selection_below"
    by (simp_all add: viewport_ok_def v del: navigate.simps)
  from b c have "scroll_offset (snd (adjust_viewport selection_below)) = 4"
    by (simp add: v)
  with a show ?thesis by (simp add: list_all_iff del: navigate.simps)
qed

subsection \<open>A play attempt whose resolution fails\<close>

lemma extract_stream_url_cache_only:
  "stream_cache s' = stream_cache s \<Longrightarrow>
   fst (extract_stream_url env u s') = fst (extract_stream_url env u s)"
  by (simp add: extract_stream_url_def split: option.splits)

lemma extract_stream_url_failed_state:
  "\<not> truthy (fst (extract_stream_url env u s)) \<Longrightarrow> snd (extract_stream_url env u s) = s"
  by (simp add: extract_stream_url_def split: option.splits if_splits)

lemma stopped_cleared_cache: "stream_cache (stopped_cleared c s) = stream_cache s"
  by (simp add: stopped_cleared_def stop_def Let_def split: option.splits)

lemma play_track_failed:
  assumes "\<not> truthy (fst (extract_stream_url env u s))"
  shows "play_track env u ttl dur fp s = (Inr False, stopped_cleared (\<not> fp) s)"
proof -
  let ?s2 = "stopped_cleared (\<not> fp) s"
  have f: "\<not> truthy (fst (extract_stream_url env u ?s2))"
    using assms extract_stream_url_cache_only [OF stopped_cleared_cache] by simp
  then have e: "snd (extract_stream_url env u ?s2) = ?s2"
    by (rule extract_stream_url_failed_state)
  obtain r s3 where x: "extract_stream_url env u ?s2 = (r, s3)"
    by force
  with f e have "\<not> truthy r" "s3 = ?s2"
    by simp_all
  then show ?thesis
    using x by (cases r) (simp_all add: play_track_def stopped_cleared_def Let_def)
qed

text \<open>
  C1, as the code has it. \<^verbatim>\<open>play_track\<close> stops the playback before it resolves the
  stream. So when the resolution gives no locator (in a session that has its VLC
  player), the call returns False and leaves the session stopped: no current track,
  duration 0, not playing. The continuation context is what it was when
  \<open>from_playlist\<close> is true, and cleared (no playlist, cursor \<open>-1\<close>) when it is false.
\<close>

theorem play_track_no_locator:
  assumes "player s" and "\<not> truthy (fst (extract_stream_url env u s))"
  shows "fst (play_track env u ttl dur from_playlist s) = Inr False \<and>
         is_playing (snd (play_track env u ttl dur from_playlist s)) = False \<and>
         current_track (snd (play_track env u ttl dur from_playlist s)) = None \<and>
         current_duration (snd (play_track env u ttl dur from_playlist s)) = PyInt 0 \<and>
         current_playlist (snd (play_track env u ttl dur from_playlist s)) =
           (if from_playlist then current_playlist s else None) \<and>
         current_playlist_index (snd (play_track env u ttl dur from_playlist s)) =
           (if from_playlist then current_playlist_index s else - 1)"
  using assms(1) unfolding play_track_failed [OF assms(2)]
  by (simp add: stopped_cleared_def stop_def Let_def split: option.splits)

lemma no_locator_for_b:
  "\<not> truthy (fst (extract_stream_url only_a_resolves ''https://youtube.com/watch?v=b'' playing_a))"
  by (simp add: extract_stream_url_def video_id_b only_a_resolves_def playing_a_def)

theorem play_track_no_locator_witness:
  "player playing_a \<and>
   fst (play_track only_a_resolves ''https://youtube.com/watch?v=b'' ''B'' (PyInt 0) True playing_a) = Inr False \<and>
   current_track (snd (play_track only_a_resolves ''https://youtube.com/watch?v=b'' ''B'' (PyInt 0) True playing_a)) = None \<and>
   current_playlist (snd (play_track only_a_resolves ''https://youtube.com/watch?v=b'' ''B'' (PyInt 0) True playing_a)) = Some mix"
proof -
  have h: "player playing_a"
    by (simp add: playing_a_def)
  from play_track_no_locator [OF h no_locator_for_b, of "''B''" "PyInt 0" True] h
  show ?thesis
    by (simp add: playing_a_def)
qed

text \<open>
  C1 as stated fails: while track A plays from the playlist \<open>mix\<close>, a \<^verbatim>\<open>play_track\<close> of
  a track that has no locator returns False, and after the call there is no current
  track, the duration is 0, nothing plays and the context is gone.
\<close>

theorem play_track_failure_changes_session:
  "fst (play_track only_a_resolves ''https://youtube.com/watch?v=b'' ''B'' (PyInt 0) False playing_a) = Inr False \<and>
   current_track playing_a = Some ''A'' \<and>
   current_track (snd (play_track only_a_resolves ''https://youtube.com/watch?v=b'' ''B'' (PyInt 0) False playing_a)) = None \<and>
   current_duration playing_a = PyInt 125 \<and>
   current_duration (snd (play_track only_a_resolves ''https://youtube.com/watch?v=b'' ''B'' (PyInt 0) False playing_a)) = PyInt 0 \<and>
   is_playing playing_a = True \<and>
   is_playing (snd (play_track only_a_resolves ''https://youtube.com/watch?v=b'' ''B'' (PyInt 0) False playing_a)) = False \<and>
   current_playlist playing_a = Some mix \<and>
   current_playlist (snd (play_track only_a_resolves ''https://youtube.com/watch?v=b'' ''B'' (PyInt 0) False playing_a)) = None"
  unfolding play_track_failed [OF no_locator_for_b]
  by (simp add: stopped_cleared_def stop_def playing_a_def Let_def)

subsection \<open>The continuation context\<close>

text \<open>
  C2, at \<^verbatim>\<open>play_playlist_track('s', -2)\<close> on the one-track playlist \<open>solo\<close>, in a fresh
  session. The guard only rejects \<open>track_index \<ge> len\<close>, so the call binds the context
  with cursor \<open>-2\<close> and then raises IndexError on reading the track: the context is
  bound and the cursor is no index of the playlist's track list.
\<close>

theorem play_playlist_track_negative_index:
  "play_playlist_track only_a_resolves ''s'' (- 2) (init_player [mix, solo]) =
     (Inl IndexError,
      (init_player [mix, solo])\<lparr>current_playlist := Some solo, current_playlist_index := - 2\<rparr>) \<and>
   py_index (tracks solo) (- 2) = Inl IndexError"
  by (simp add: play_playlist_track_def init_player_def mix_def tracks_def solo_def py_index_def)

text \<open>
  Outside the call above the invariant is kept: by \<^verbatim>\<open>stop\<close>, by \<^verbatim>\<open>play_track\<close> outside a
  playlist (which clears the context), by \<^verbatim>\<open>play_playlist_track\<close> with an index from 0
  up, and by \<^verbatim>\<open>play_next_in_playlist\<close> whenever it returns, in a session that has its
  VLC player and whose playlists hold tracks with \<^verbatim>\<open>'url'\<close> and \<^verbatim>\<open>'title'\<close>.
\<close>

lemma context_ok_init: "context_ok (init_player pls)"
  by (simp add: context_ok_def init_player_def)

lemma context_ok_stop: "context_ok s \<Longrightarrow> context_ok (stop c s)"
  by (simp add: context_ok_def stop_def Let_def split: option.splits)

lemma play_track_state:
  assumes "player s"
  shows "player (snd (play_track env u ttl dur fp s)) \<and>
         current_playlist (snd (play_track env u ttl dur fp s)) =
           (if fp then current_playlist s else None) \<and>
         current_playlist_index (snd (play_track env u ttl dur fp s)) =
           (if fp then current_playlist_index s else - 1) \<and>
         (current_track (snd (play_track env u ttl dur fp s)) = None \<or>
          current_track (snd (play_track env u ttl dur fp s)) = Some ttl)"
proof -
  let ?s2 = "stopped_cleared (\<not> fp) s"
  have p: "player ?s2" "current_track ?s2 = None"
    "current_playlist ?s2 = (if fp then current_playlist s else None)"
    "current_playlist_index ?s2 = (if fp then current_playlist_index s else - 1)"
    using assms by (simp_all add: stopped_cleared_def stop_def Let_def split: option.splits)
  obtain r s3 where x: "extract_stream_url env u ?s2 = (r, s3)"
    by force
  then have q: "player s3 = player ?s2" "current_playlist s3 = current_playlist ?s2"
    "current_playlist_index s3 = current_playlist_index ?s2"
    "current_track s3 = current_track ?s2"
    by (auto simp: extract_stream_url_def split: option.splits if_splits)
  have "play_track env u ttl dur fp s =
      (case r of
         None \<Rightarrow> (Inr False, s3)
       | Some locator \<Rightarrow>
           if locator = [] then (Inr False, s3)
           else
             (let s4 = s3\<lparr>current_track := Some ttl, current_duration := dur\<rparr> in
              if vlc_raises env locator then (Inl BackendError, s4)
              else if player s4 then (Inr True, s4\<lparr>is_playing := True\<rparr>)
              else (Inl AttributeError, s4)))"
    using x by (simp add: play_track_def stopped_cleared_def Let_def)
  then show ?thesis
    using p q by (cases r) (simp_all add: Let_def)
qed

lemma context_ok_play_track:
  assumes "player s"
  shows "context_ok (snd (play_track env u ttl dur False s))"
  using play_track_state [OF assms, of env u ttl dur False]
  by (simp add: context_ok_def)

lemma play_track_of_context:
  assumes "player s" and "current_playlist s = Some pl"
    and "0 \<le> current_playlist_index s" and "current_playlist_index s < int (length (tracks pl))"
    and "url (tracks pl ! nat (current_playlist_index s)) \<noteq> None"
    and "title (tracks pl ! nat (current_playlist_index s)) \<noteq> None"
  shows "player (snd (play_track_of env (tracks pl ! nat (current_playlist_index s)) s)) \<and>
         current_playlist (snd (play_track_of env (tracks pl ! nat (current_playlist_index s)) s)) = Some pl \<and>
         context_ok (snd (play_track_of env (tracks pl ! nat (current_playlist_index s)) s))"
proof -
  let ?t = "tracks pl ! nat (current_playlist_index s)"
  from assms(5,6) obtain u ttl where k: "url ?t = Some u" "title ?t = Some ttl"
    by auto
  let ?d = "case duration ?t of None \<Rightarrow> PyInt 0 | Some d \<Rightarrow> d"
  have e: "play_track_of env ?t s = play_track env u ttl ?d True s"
    by (simp add: play_track_of_def k)
  from play_track_state [OF assms(1), of env u ttl ?d True] assms(2,3,4) k(2)
  show ?thesis
    unfolding e by (auto simp: context_ok_def)
qed

lemma find_playlist_member:
  "find_playlist pls i = Some pl \<Longrightarrow> pl \<in> set pls"
  by (induction pls) (auto split: if_splits)

lemma well_formed_nth:
  "well_formed pl \<Longrightarrow> n < length (tracks pl) \<Longrightarrow>
   url (tracks pl ! n) \<noteq> None \<and> title (tracks pl ! n) \<noteq> None"
  by (simp add: well_formed_def list_all_length)

lemma context_ok_play_playlist_track:
  assumes "player s" and "context_ok s" and "0 \<le> track_index"
    and "list_all well_formed (playlists s)"
  shows "context_ok (snd (play_playlist_track env playlist_id track_index s))"
proof (cases "find_playlist (playlists s) playlist_id")
  case None
  with assms(2) show ?thesis
    by (simp add: play_playlist_track_def)
next
  case (Some pl)
  show ?thesis
  proof (cases "track_index \<ge> int (length (tracks pl))")
    case True
    with Some assms(2) show ?thesis
      by (simp add: play_playlist_track_def)
  next
    case False
    let ?s1 = "s\<lparr>current_playlist := Some pl, current_playlist_index := track_index\<rparr>"
    have wf: "well_formed pl"
      using find_playlist_member [OF Some] assms(4) by (simp add: list_all_iff)
    have n: "nat track_index < length (tracks pl)"
      using False assms(3) by linarith
    have ix: "py_index (tracks pl) track_index = Inr (tracks pl ! nat track_index)"
      using False assms(3) by (simp add: py_index_def)
    from n obtain ts where k: "tracks_key pl = Some ts" "tracks pl = ts"
      by (cases "tracks_key pl") (simp_all add: tracks_def)
    have e: "play_playlist_track env playlist_id track_index s =
        play_track_of env (tracks pl ! nat (current_playlist_index ?s1)) ?s1"
      using Some False ix by (simp add: play_playlist_track_def k)
    have "player ?s1" "current_playlist ?s1 = Some pl" "0 \<le> current_playlist_index ?s1"
      "current_playlist_index ?s1 < int (length (tracks pl))"
      using assms(1,3) False by simp_all
    from play_track_of_context [OF this, of env] well_formed_nth [OF wf n]
    show ?thesis
      unfolding e by simp
  qed
qed

lemma context_ok_play_next_in_playlist:
  assumes r: "play_next_in_playlist env s = Some (res, s')"
    and "player s" and "context_ok s"
    and "case current_playlist s of None \<Rightarrow> True | Some pl \<Rightarrow> well_formed pl"
  shows "context_ok s'"
proof -
  have "player s \<and> context_ok s \<and>
        (case current_playlist s of None \<Rightarrow> True | Some pl \<Rightarrow> well_formed pl) \<longrightarrow>
        context_ok (snd y)"
    if "play_next_in_playlist env s = Some y" for y
  proof (rule play_next_in_playlist.raw_induct
      [where P = "\<lambda>env s y. player s \<and> context_ok s \<and>
          (case current_playlist s of None \<Rightarrow> True | Some pl \<Rightarrow> well_formed pl) \<longrightarrow>
          context_ok (snd y)", OF _ that], goal_cases)
    case (1 play_next env' s0 y')
    show ?case
    proof (intro impI, elim conjE)
      assume p: "player s0" and c: "context_ok s0"
        and w: "case current_playlist s0 of None \<Rightarrow> True | Some pl \<Rightarrow> well_formed pl"
      show "context_ok (snd y')"
      proof (cases "current_playlist s0")
        case None
        with 1(2) c show ?thesis by auto
      next
        case (Some pl)
        with c have ne: "tracks pl \<noteq> []"
          by (auto simp: context_ok_def)
        let ?i = "(current_playlist_index s0 + 1) mod int (length (tracks pl))"
        let ?s1 = "s0\<lparr>current_playlist_index := ?i\<rparr>"
        let ?t = "tracks pl ! nat (current_playlist_index ?s1)"
        have "0 < int (length (tracks pl))"
          using ne by simp
        then have i: "0 \<le> ?i" "?i < int (length (tracks pl))"
          by simp_all
        then have n: "nat ?i < length (tracks pl)"
          by linarith
        from w Some have wf: "well_formed pl"
          by simp
        have "player ?s1" "current_playlist ?s1 = Some pl" "0 \<le> current_playlist_index ?s1"
          "current_playlist_index ?s1 < int (length (tracks pl))"
          using p Some i by simp_all
        from play_track_of_context [OF this, of env'] well_formed_nth [OF wf n]
        have k: "player (snd (play_track_of env' ?t ?s1))"
          "current_playlist (snd (play_track_of env' ?t ?s1)) = Some pl"
          "context_ok (snd (play_track_of env' ?t ?s1))"
          by simp_all
        obtain a s2 where x: "play_track_of env' ?t ?s1 = (a, s2)"
          by force
        with k have k2: "player s2" "current_playlist s2 = Some pl" "context_ok s2"
          by simp_all
        from 1(2) Some ne x have b:
          "(case a of
              Inl e \<Rightarrow> if 1 < length (tracks pl) then play_next env' s2 else Some (False, s2)
            | Inr success \<Rightarrow> Some (success, s2)) = Some y'"
          by (simp add: Let_def)
        show ?thesis
        proof (cases a)
          case (Inr success)
          with b k2 show ?thesis by auto
        next
          case (Inl e)
          show ?thesis
          proof (cases "1 < length (tracks pl)")
            case True
            with b Inl have "play_next env' s2 = Some y'"
              by simp
            from 1(1) [OF this] k2 wf show ?thesis
              by simp
          next
            case False
            with b Inl k2 show ?thesis by auto
          qed
        qed
      qed
    qed
  qed
  from this [OF r] assms(2,3,4) show ?thesis
    by simp
qed

subsection \<open>Advancing in the playlist\<close>

text \<open>
  C3, at a two-track playlist whose second track has no locator. While track A plays
  (cursor 0), \<^verbatim>\<open>play_next_in_playlist\<close> moves the cursor to 1, \<^verbatim>\<open>play_track\<close> returns False
  for track B, and the method returns this False at once: the \<^verbatim>\<open>except\<close> branch that
  tries the following track is reached by an exception only. The session is left
  stopped with the cursor on the failed track, although the playlist has two tracks
  and track A would play.
\<close>

theorem play_next_in_playlist_no_retry:
  "play_next_in_playlist only_a_resolves playing_a =
     Some (False,
           playing_a\<lparr>is_playing := False, current_track := None, current_duration := PyInt 0,
                     current_playlist_index := 1\<rparr>)"
  by (subst play_next_in_playlist.simps)
     (simp add: playing_a_def mix_def tracks_def track_a_def track_b_def play_track_of_def play_track_def
        stop_def extract_stream_url_def video_id_b only_a_resolves_def Let_def)

text \<open>
  In general: an attempt that returns False ends the call with False, whatever the
  length of the playlist; and on a playlist of one track every failed attempt, raised
  or returned, ends the call with False.
\<close>

lemma play_next_in_playlist_returned_false:
  assumes "current_playlist s = Some pl" and "tracks pl \<noteq> []"
    and "play_track_of env
           (tracks pl ! nat ((current_playlist_index s + 1) mod int (length (tracks pl))))
           (s\<lparr>current_playlist_index :=
                (current_playlist_index s + 1) mod int (length (tracks pl))\<rparr>) = (Inr False, s2)"
  shows "play_next_in_playlist env s = Some (False, s2)"
  by (subst play_next_in_playlist.simps) (simp add: assms Let_def)

lemma play_next_in_playlist_single_track:
  assumes "current_playlist s = Some pl" and "length (tracks pl) = 1"
    and "fst (play_track_of env (tracks pl ! 0) (s\<lparr>current_playlist_index := 0\<rparr>)) \<noteq> Inr True"
  shows "fst (the (play_next_in_playlist env s)) = False \<and> play_next_in_playlist env s \<noteq> None"
proof -
  obtain a s2 where x: "play_track_of env (tracks pl ! 0) (s\<lparr>current_playlist_index := 0\<rparr>) = (a, s2)"
    by force
  have ne: "tracks pl \<noteq> []"
    using assms(2) by auto
  have "play_next_in_playlist env s =
      (case a of Inl e \<Rightarrow> Some (False, s2) | Inr success \<Rightarrow> Some (success, s2))"
    by (subst play_next_in_playlist.simps) (simp add: assms(1,2) ne x Let_def)
  with assms(3) x show ?thesis
    by (cases a) auto
qed

lemma play_next_in_playlist_never_returns:
  assumes "1 < length (tracks pl)" and "\<forall>t \<in> set (tracks pl). url t = None"
    and "current_playlist s = Some pl"
  shows "play_next_in_playlist env s = None"
proof -
  have ne: "tracks pl \<noteq> []"
    using assms(1) by auto
  have raises: "play_track_of env' (tracks pl ! nat (i mod int (length (tracks pl)))) s' =
      (Inl KeyError, s')" for i s' env'
  proof -
    have "0 < int (length (tracks pl))"
      using ne by simp
    then have "0 \<le> i mod int (length (tracks pl))"
      and "i mod int (length (tracks pl)) < int (length (tracks pl))"
      by simp_all
    then have "nat (i mod int (length (tracks pl))) < length (tracks pl)"
      by linarith
    then have "tracks pl ! nat (i mod int (length (tracks pl))) \<in> set (tracks pl)"
      by simp
    with assms(2) show ?thesis
      by (simp add: play_track_of_def)
  qed
  have "current_playlist s \<noteq> Some pl" if r: "play_next_in_playlist env s = Some y" for y
  proof (rule play_next_in_playlist.raw_induct
      [where P = "\<lambda>env s y. current_playlist s \<noteq> Some pl", OF _ r], goal_cases)
    case (1 play_next env' s' y')
    show ?case
    proof
      assume b: "current_playlist s' = Some pl"
      let ?s1 = "s'\<lparr>current_playlist_index :=
                     (current_playlist_index s' + 1) mod int (length (tracks pl))\<rparr>"
      from 1(2) b ne assms(1) have "play_next env' ?s1 = Some y'"
        by (simp add: Let_def raises)
      from 1(1) [OF this] b show False
        by simp
    qed
  qed
  with assms(3) show ?thesis
    by (cases "play_next_in_playlist env s") auto
qed

text \<open>
  C4, at the playlist \<open>broken\<close>, two tracks without the \<^verbatim>\<open>'url'\<close> key. After
  \<^verbatim>\<open>play_playlist_track('q', 0)\<close> has bound it (the call itself raises KeyError),
  \<^verbatim>\<open>play_next_in_playlist\<close> never returns: every attempt raises, the playlist has more
  than one track, and each \<^verbatim>\<open>except\<close> branch calls the method again.
\<close>

theorem play_next_in_playlist_diverges:
  "play_next_in_playlist only_a_resolves
     (snd (play_playlist_track only_a_resolves ''q'' 0 (init_player [broken]))) = None"
proof -
  have "current_playlist
          (snd (play_playlist_track only_a_resolves ''q'' 0 (init_player [broken]))) =
        Some broken"
    by (simp add: play_playlist_track_def init_player_def broken_def tracks_def py_index_def
        play_track_of_def no_url_1_def)
  moreover have "1 < length (tracks broken)" and "\<forall>t \<in> set (tracks broken). url t = None"
    by (simp_all add: broken_def tracks_def no_url_1_def no_url_2_def)
  ultimately show ?thesis
    by (intro play_next_in_playlist_never_returns)
qed


subsection \<open>The cursor wraps around\<close>

lemma play_track_in_context_returns:
  assumes "player s" and "\<forall>l. \<not> vlc_raises env l"
  shows "\<exists>r s'. play_track env u ttl dur True s = (Inr r, s') \<and> player s' \<and>
           current_playlist s' = current_playlist s \<and>
           current_playlist_index s' = current_playlist_index s"
proof -
  let ?s2 = "stopped_cleared False s"
  have p: "player ?s2" "current_playlist ?s2 = current_playlist s"
    "current_playlist_index ?s2 = current_playlist_index s"
    using assms(1) by (simp_all add: stopped_cleared_def stop_def Let_def split: option.splits)
  obtain r s3 where x: "extract_stream_url env u ?s2 = (r, s3)"
    by force
  then have q: "player s3 = player ?s2" "current_playlist s3 = current_playlist ?s2"
    "current_playlist_index s3 = current_playlist_index ?s2"
    by (auto simp: extract_stream_url_def split: option.splits if_splits)
  show ?thesis
    using x p q assms(2)
    by (cases r) (auto simp: play_track_def stopped_cleared_def Let_def)
qed

lemma play_track_of_returns:
  assumes "player s" and "\<forall>l. \<not> vlc_raises env l" and "url t \<noteq> None" and "title t \<noteq> None"
  shows "\<exists>r s'. play_track_of env t s = (Inr r, s') \<and> player s' \<and>
           current_playlist s' = current_playlist s \<and>
           current_playlist_index s' = current_playlist_index s"
  using assms(3,4) play_track_in_context_returns [OF assms(1,2)]
  by (auto simp: play_track_of_def)

lemma play_next_in_playlist_step:
  assumes "player s" and "\<forall>l. \<not> vlc_raises env l" and "current_playlist s = Some pl"
    and "tracks pl \<noteq> []" and "\<forall>t \<in> set (tracks pl). url t \<noteq> None \<and> title t \<noteq> None"
  shows "\<exists>r s'. play_next_in_playlist env s = Some (r, s') \<and> player s' \<and>
           current_playlist s' = Some pl \<and>
           current_playlist_index s' =
             (current_playlist_index s + 1) mod int (length (tracks pl))"
proof -
  let ?n = "int (length (tracks pl))"
  let ?i = "(current_playlist_index s + 1) mod ?n"
  let ?s1 = "s\<lparr>current_playlist_index := ?i\<rparr>"
  let ?t = "tracks pl ! nat ?i"
  have "0 < ?n"
    using assms(4) by simp
  then have "0 \<le> ?i" and "?i < ?n"
    by simp_all
  then have "nat ?i < length (tracks pl)"
    by linarith
  then have "?t \<in> set (tracks pl)"
    by simp
  with assms(5) have wf: "url ?t \<noteq> None" "title ?t \<noteq> None"
    by simp_all
  have "player ?s1"
    using assms(1) by simp
  from play_track_of_returns [OF this assms(2) wf]
  obtain r s' where x: "play_track_of env ?t ?s1 = (Inr r, s')" "player s'"
    "current_playlist s' = current_playlist ?s1"
    "current_playlist_index s' = current_playlist_index ?s1"
    by blast
  have "play_next_in_playlist env s = Some (r, s')"
    by (subst play_next_in_playlist.simps) (simp add: assms(3,4) x(1) Let_def)
  with x assms(3) show ?thesis
    by simp
qed

lemma play_next_times_cursors:
  assumes "\<forall>l. \<not> vlc_raises env l" and "tracks pl \<noteq> []"
    and "\<forall>t \<in> set (tracks pl). url t \<noteq> None \<and> title t \<noteq> None"
  shows "player s \<Longrightarrow> current_playlist s = Some pl \<Longrightarrow>
    map_option fst (play_next_times env k s) =
      Some (map (\<lambda>i. (current_playlist_index s + int i) mod int (length (tracks pl)))
              [Suc 0..<Suc k])"
proof (induction k arbitrary: s)
  case 0
  then show ?case by simp
next
  case (Suc k)
  from play_next_in_playlist_step [OF Suc.prems(1) assms(1) Suc.prems(2) assms(2,3)]
  obtain r s1 where x: "play_next_in_playlist env s = Some (r, s1)" "player s1"
    "current_playlist s1 = Some pl"
    "current_playlist_index s1 = (current_playlist_index s + 1) mod int (length (tracks pl))"
    by blast
  from Suc.IH [OF x(2,3)] obtain cs s2 where
    y: "play_next_times env k s1 = Some (cs, s2)"
    "cs = map (\<lambda>i. (current_playlist_index s1 + int i) mod int (length (tracks pl)))
            [Suc 0..<Suc k]"
    by (cases "play_next_times env k s1") auto
  have "[Suc 0..<Suc (Suc k)] = Suc 0 # [Suc (Suc 0)..<Suc (Suc k)]"
    by (rule upt_conv_Cons) simp
  also have "[Suc (Suc 0)..<Suc (Suc k)] = map Suc [Suc 0..<Suc k]"
    by (simp only: map_Suc_upt)
  finally have sh: "[Suc 0..<Suc (Suc k)] = Suc 0 # map Suc [Suc 0..<Suc k]" .
  show ?case
    by (simp add: x(1) y(1) del: upt_Suc)
       (simp add: sh y(2) x(4) mod_add_left_eq add.assoc comp_def del: upt_Suc)
qed

lemma one_round_of_cursors:
  assumes "0 < n"
  shows "map (\<lambda>i. (0 + int i) mod int n) [Suc 0..<Suc n] = map int [1..<n] @ [0]"
proof -
  have "[Suc 0..<Suc n] = [Suc 0..<n] @ [n]"
    using assms by simp
  moreover have "map (\<lambda>i. (0 + int i) mod int n) [Suc 0..<n] = map int [Suc 0..<n]"
    by (rule map_cong) simp_all
  ultimately show ?thesis
    by simp
qed

text \<open>
  C5. With the context bound to a playlist of \<open>n \<ge> 1\<close> tracks and no play attempt
  raising (each track has its \<^verbatim>\<open>'url'\<close> and \<^verbatim>\<open>'title'\<close>, the VLC player exists and its
  calls do not raise; a resolution may succeed or not), a call of
  \<^verbatim>\<open>play_next_in_playlist\<close> returns with the cursor at \<open>(cursor + 1) mod n\<close>, and \<open>n\<close> calls
  from cursor 0 leave the cursors \<open>1, 2, \<dots>, n - 1, 0\<close>, one after each call.
\<close>

theorem play_next_in_playlist_wraps:
  assumes "player s" and "\<forall>l. \<not> vlc_raises env l" and "current_playlist s = Some pl"
    and "tracks pl \<noteq> []" and "\<forall>t \<in> set (tracks pl). url t \<noteq> None \<and> title t \<noteq> None"
  shows "(\<exists>r s'. play_next_in_playlist env s = Some (r, s') \<and>
            current_playlist_index s' =
              (current_playlist_index s + 1) mod int (length (tracks pl))) \<and>
         (current_playlist_index s = 0 \<longrightarrow>
            map_option fst (play_next_times env (length (tracks pl)) s) =
              Some (map int [1..<length (tracks pl)] @ [0]))"
proof
  from play_next_in_playlist_step [OF assms]
  show "\<exists>r s'. play_next_in_playlist env s = Some (r, s') \<and>
            current_playlist_index s' =
              (current_playlist_index s + 1) mod int (length (tracks pl))"
    by blast
next
  have n: "0 < length (tracks pl)"
    using assms(4) by simp
  show "current_playlist_index s = 0 \<longrightarrow>
          map_option fst (play_next_times env (length (tracks pl)) s) =
            Some (map int [1..<length (tracks pl)] @ [0])"
  proof
    assume z: "current_playlist_index s = 0"
    show "map_option fst (play_next_times env (length (tracks pl)) s) =
            Some (map int [1..<length (tracks pl)] @ [0])"
      unfolding play_next_times_cursors [OF assms(2,4,5,1,3)] z one_round_of_cursors [OF n] ..
  qed
qed

theorem play_next_in_playlist_wraps_witness:
  "player playing_a \<and> current_playlist playing_a = Some mix \<and>
   current_playlist_index playing_a = 0 \<and>
   map_option fst (play_next_times only_a_resolves (length (tracks mix)) playing_a) = Some [1, 0]"
proof -
  have h: "player playing_a" "\<forall>l. \<not> vlc_raises only_a_resolves l"
    "current_playlist playing_a = Some mix" "tracks mix \<noteq> []"
    "\<forall>t \<in> set (tracks mix). url t \<noteq> None \<and> title t \<noteq> None"
    by (simp_all add: playing_a_def only_a_resolves_def mix_def tracks_def track_a_def track_b_def)
  have z: "current_playlist_index playing_a = 0"
    by (simp add: playing_a_def)
  have l: "map int [1..<length (tracks mix)] @ [0] = [1, 0]"
    by (simp add: mix_def tracks_def)
  from play_next_in_playlist_wraps [OF h] z
  have "map_option fst (play_next_times only_a_resolves (length (tracks mix)) playing_a) =
          Some (map int [1..<length (tracks mix)] @ [0])"
    by blast
  with h(1,3) z show ?thesis
    unfolding l by simp
qed

end
